theory Spec2Isabelle
  imports Complex_Main
begin

section \<open>Values shared by the whole development\<close>

text \<open>
  A JavaScript \<^verbatim>\<open>number\<close> that holds a database INTEGER (ids, epochs, creation times,
  format indices, bucket counts) is an \<^typ>\<open>int\<close>. The clock reading
  \<^verbatim>\<open>Date.now() / 1000\<close> and the durations derived from it carry a millisecond fraction;
  they are exact reals (\<^typ>\<open>real\<close>), so \<^verbatim>\<open>Math.floor\<close> is \<^term>\<open>floor\<close>.
  Every \<^verbatim>\<open>throw\<close> and every rejected promise is a value of \<open>error\<close> on the left of a sum.
\<close>

datatype error =
    Error string
  | SqliteError string
  | TypeError string

text \<open>Decimal rendering of an integer, as template literals and \<^verbatim>\<open>toString\<close> print it.\<close>

definition digitChar :: "nat \<Rightarrow> char" where
  "digitChar d = ''0123456789'' ! d"

fun showNat :: "nat \<Rightarrow> string" where
  "showNat n = (if n < 10 then [digitChar n] else showNat (n div 10) @ [digitChar (n mod 10)])"

declare showNat.simps [simp del]

definition showInt :: "int \<Rightarrow> string" where
  "showInt i = (if i < 0 then ''-'' @ showNat (nat (- i)) else showNat (nat i))"


section \<open>Duration bucketizer and format strategies\<close>

text \<open>\<^verbatim>\<open>type Scale = {name: string, scale: number}\<close>\<close>

record Scale =
  name :: string
  scale :: int

text \<open>The table \<^verbatim>\<open>units\<close>, constant for constant as the source writes it.\<close>

definition units :: "Scale list" where
  "units =
    [\<lparr>name = ''Year'', scale = 365 * 24 * 3600\<rparr>,
     \<lparr>name = ''Week'', scale = 7 * 24 * 3600\<rparr>,
     \<lparr>name = ''Day'', scale = 24 * 3600\<rparr>,
     \<lparr>name = ''Hour'', scale = 24 * 3600\<rparr>,
     \<lparr>name = ''Minute'', scale = 60\<rparr>]"

definition scaleToStr :: "Scale \<Rightarrow> string" where
  "scaleToStr s = showInt (scale s) @ '' '' @ name s @ (if scale s = 1 then '''' else ''s'')"

text \<open>
  \<^verbatim>\<open>makeScaleFormatter(name)\<close>: the closure looks the divisor up with
  \<^verbatim>\<open>units.filter((v) => v.name === 'Year')[0]?.scale\<close>, whatever \<open>name\<close> is, and
  throws when the lookup is undefined.
\<close>

definition makeScaleFormatter :: "string \<Rightarrow> int \<Rightarrow> real \<Rightarrow> error + string" where
  "makeScaleFormatter nm epoch now =
     (case filter (\<lambda>v. name v = ''Year'') units of
        [] \<Rightarrow> Inl (Error (''Unrecoznied scale \"'' @ nm @ ''\"''))
      | v # _ \<Rightarrow>
          Inr (scaleToStr \<lparr>name = nm,
                 scale = \<lfloor>(now - of_int epoch) / of_int (scale v)\<rfloor>\<rparr>))"

text \<open>
  The loop of \<^verbatim>\<open>bucketTimes\<close> over the remaining units; its state is the pair of the
  local variables \<^verbatim>\<open>diff\<close> and \<^verbatim>\<open>diffs\<close> (here \<open>dfs\<close>), returned as they stand when the loop ends.
\<close>

fun bucketLoop :: "Scale list \<Rightarrow> real \<Rightarrow> Scale list \<Rightarrow> real \<times> Scale list" where
  "bucketLoop [] diff dfs = (diff, dfs)"
| "bucketLoop (unit # rest) diff dfs =
     (let qty = \<lfloor>diff / of_int (scale unit)\<rfloor> in
      bucketLoop rest (diff - of_int (qty * scale unit))
        (if qty > 0 \<or> length dfs > 0
         then dfs @ [\<lparr>name = name unit, scale = qty\<rparr>]
         else dfs))"

definition bucketTimes :: "real \<Rightarrow> Scale list" where
  "bucketTimes diff = snd (bucketLoop units diff [])"

text \<open>What is left in \<^verbatim>\<open>diff\<close> when \<^verbatim>\<open>bucketTimes\<close> returns: the seconds no bucket holds.\<close>

definition bucketRemainder :: "real \<Rightarrow> real" where
  "bucketRemainder diff = fst (bucketLoop units diff [])"

text \<open>The scale the table \<^verbatim>\<open>units\<close> stores under a unit name (0 for a name it lacks).\<close>

definition unitSeconds :: "string \<Rightarrow> int" where
  "unitSeconds nm = (case filter (\<lambda>v. name v = nm) units of [] \<Rightarrow> 0 | v # _ \<Rightarrow> scale v)"

text \<open>Seconds accounted for by a list of buckets, each count weighted by its unit's scale.\<close>

definition bucketSeconds :: "Scale list \<Rightarrow> int" where
  "bucketSeconds bs = (\<Sum>b\<leftarrow>bs. scale b * unitSeconds (name b))"

type_synonym Formatter = "int \<Rightarrow> real \<Rightarrow> error + string"

definition showEpoch :: Formatter where
  "showEpoch e n = Inr (showInt e)"

definition oneUnit :: Formatter where
  "oneUnit e n =
     (case bucketTimes (n - of_int e) of
        [] \<Rightarrow> Inr ''-''
      | b # _ \<Rightarrow> Inr (scaleToStr b))"

definition twoUnits :: Formatter where
  "twoUnits e n =
     (case bucketTimes (n - of_int e) of
        [] \<Rightarrow> Inr ''-''
      | [b1] \<Rightarrow> Inr (scaleToStr b1)
      | b1 # b2 # _ \<Rightarrow> Inr (scaleToStr b1 @ '', '' @ scaleToStr b2))"

definition formatters :: "(string \<times> Formatter) list" where
  "formatters =
    [(''Show Epoch'', showEpoch),
     (''One Unit'', oneUnit),
     (''Two Units'', twoUnits),
     (''Years'', makeScaleFormatter ''Year''),
     (''Weeks'', makeScaleFormatter ''Week''),
     (''Days'', makeScaleFormatter ''Day''),
     (''Hours'', makeScaleFormatter ''Hour''),
     (''Minutes'', makeScaleFormatter ''Minute'')]"

definition listFormatters :: "string list" where
  "listFormatters = map fst formatters"

text \<open>
  \<^verbatim>\<open>formatters[format]\<close>: a JavaScript array read. It is undefined for a missing value
  (\<open>None\<close>), a negative index and an index past the end.
\<close>

definition formatterAt :: "int option \<Rightarrow> (string \<times> Formatter) option" where
  "formatterAt format =
     (case format of
        None \<Rightarrow> None
      | Some i \<Rightarrow>
          if 0 \<le> i \<and> i < int (length formatters) then Some (formatters ! nat i) else None)"

text \<open>
  \<^verbatim>\<open>formatTime(epoch, format)\<close>. The reading of \<^verbatim>\<open>Date.now()\<close>, in milliseconds, is the
  first argument.
\<close>

definition formatTime :: "int \<Rightarrow> int \<Rightarrow> int option \<Rightarrow> error + string" where
  "formatTime nowMs epoch format =
     (let (_, formatter) = (case formatterAt format of Some f \<Rightarrow> f | None \<Rightarrow> formatters ! 1);
          now = of_int nowMs / 1000
      in formatter epoch now)"

section \<open>The relational store\<close>

text \<open>
  Rows of the tables the statements of class \<^verbatim>\<open>Data\<close> read and write, one record per
  table, fields named after the SQL aliases (\<open>u\<close>, \<open>t\<close>, \<open>g\<close>, \<open>tg\<close>) and columns. \<open>User\<close>
  and \<open>Timer\<close> are also the interfaces of the same name, which list exactly the selected
  columns. The columns \<^verbatim>\<open>resetAt\<close> and \<^verbatim>\<open>duration\<close> of Timers are read by no statement and
  are left out.
\<close>

record User =
  u_id :: int
  u_email :: string
  u_slug :: string

record Timer =
  t_id :: int
  t_epoch :: int
  t_title :: string
  t_slug :: string
  t_secret :: string
  t_userid :: int
  t_format :: int
  t_createdAt :: int

record GroupRow =
  g_id :: int
  g_title :: string
  g_slug :: string
  g_userid :: int
  g_createdAt :: int

record TimerGroupRow =
  tg_id :: int
  tg_groupid :: int
  tg_timerid :: int
  tg_userid :: int
  tg_createdAt :: int

text \<open>\<^verbatim>\<open>interface Group\<close>, the shape \<^verbatim>\<open>getGroups\<close> materializes.\<close>

record Group =
  group_id :: int
  group_title :: string
  group_slug :: string
  group_createdAt :: int
  group_timers :: "Timer list"

text \<open>
  The state the operations run in: the tables, each a list of rows in rowid order; the
  counter \<^verbatim>\<open>sqlite_sequence\<close> keeps for the AUTOINCREMENT key of Users; the connection's
  last insert rowid; and the number of calls made to \<^verbatim>\<open>Math.random\<close> so far.
\<close>

record World =
  Slugs :: "string list"
  Users :: "User list"
  Users_seq :: int
  Timers :: "Timer list"
  Groups :: "GroupRow list"
  TimerGroups :: "TimerGroupRow list"
  lastRowid :: int
  randomCalls :: nat

text \<open>
  What \<^verbatim>\<open>db.run\<close> resolves to. The driver fills \<^verbatim>\<open>lastID\<close> and \<^verbatim>\<open>changes\<close> after every
  statement that runs to completion, from the connection's last insert rowid and its
  change count: \<^verbatim>\<open>lastID\<close> is a number also when the statement inserted nothing, and then
  it is the rowid of the latest insert made before (0 when none was made).
\<close>

record RunResult =
  lastID :: "int option"
  changes :: nat

definition runResult :: "World \<Rightarrow> nat \<Rightarrow> RunResult" where
  "runResult w n = \<lparr>lastID = Some (lastRowid w), changes = n\<rparr>"

subsection \<open>Slug allocation\<close>

definition slugChars :: string where
  "slugChars = ''ABCDEFGHJKLMNPQRSTUVWXYZabcdefghijkmnopqrstuvwxyz23456789''"

text \<open>
  \<^verbatim>\<open>slugChars[Math.floor(r * slugChars.length)]\<close> appended to a string: a read past the end
  is \<^verbatim>\<open>undefined\<close>, which the concatenation spells out.
\<close>

definition slugCharAt :: "real \<Rightarrow> string" where
  "slugCharAt r =
     (let i = \<lfloor>r * real (length slugChars)\<rfloor>
      in if 0 \<le> i \<and> i < int (length slugChars) then [slugChars ! nat i] else ''undefined'')"

text \<open>
  The innermost loop of \<^verbatim>\<open>createSlug\<close>: \<open>n\<close> characters, drawn from the calls
  \<open>pos, pos + 1, \<dots>\<close> of \<^verbatim>\<open>Math.random\<close>, whose results are the sequence \<open>rnd\<close>.
\<close>

fun drawChars :: "(nat \<Rightarrow> real) \<Rightarrow> nat \<Rightarrow> nat \<Rightarrow> string" where
  "drawChars rnd pos 0 = []"
| "drawChars rnd pos (Suc n) = slugCharAt (rnd pos) @ drawChars rnd (Suc pos) n"

text \<open>
  \<^verbatim>\<open>INSERT OR IGNORE INTO Slugs (slug) VALUES (?)\<close>. Slugs has a UNIQUE column and no
  declared key; no statement deletes from it, so a new row takes the next rowid.
\<close>

definition insertOrIgnoreSlug :: "string \<Rightarrow> World \<Rightarrow> RunResult \<times> World" where
  "insertOrIgnoreSlug slug w =
     (if slug \<in> set (Slugs w) then (runResult w 0, w)
      else (let w' = w\<lparr>Slugs := Slugs w @ [slug], lastRowid := int (length (Slugs w)) + 1\<rparr>
            in (runResult w' 1, w')))"

text \<open>The loop over \<^verbatim>\<open>attempt\<close>; \<open>None\<close> when it ends without a \<^verbatim>\<open>return\<close>.\<close>

function attemptLoop ::
  "(nat \<Rightarrow> real) \<Rightarrow> nat \<Rightarrow> nat \<Rightarrow> World \<Rightarrow> string option \<times> World" where
  "attemptLoop rnd len attempt w =
     (if attempt < 9 then
        (let slug = drawChars rnd (randomCalls w) len;
             w1 = w\<lparr>randomCalls := randomCalls w + len\<rparr>;
             (result, w2) = insertOrIgnoreSlug slug w1
         in if lastID result \<noteq> None then (Some slug, w2)
            else attemptLoop rnd len (attempt + 1) w2)
      else (None, w))"
  by pat_completeness auto
termination
  by (relation "measure (\<lambda>(rnd, len, attempt, w). 9 - attempt)") auto

declare attemptLoop.simps [simp del]

text \<open>The loop over \<^verbatim>\<open>length\<close>, and the \<^verbatim>\<open>throw\<close> after it.\<close>

function lengthLoop :: "(nat \<Rightarrow> real) \<Rightarrow> nat \<Rightarrow> World \<Rightarrow> (error + string) \<times> World" where
  "lengthLoop rnd len w =
     (if len < 12 then
        (case attemptLoop rnd len 0 w of
           (Some slug, w') \<Rightarrow> (Inr slug, w')
         | (None, w') \<Rightarrow> lengthLoop rnd (len + 2) w')
      else (Inl (Error ''token space exhausted''), w))"
  by pat_completeness auto
termination
  by (relation "measure (\<lambda>(rnd, len, w). 12 - len)") auto

declare lengthLoop.simps [simp del]

definition createSlug :: "(nat \<Rightarrow> real) \<Rightarrow> World \<Rightarrow> (error + string) \<times> World" where
  "createSlug rnd w = lengthLoop rnd 6 w"

subsection \<open>Users\<close>

text \<open>
  \<^verbatim>\<open>INSERT OR IGNORE INTO USERS (email, slug) VALUES (?, ?)\<close>. The AUTOINCREMENT key is
  one more than the largest key the table ever held, and it is taken before the UNIQUE
  constraint on \<^verbatim>\<open>email\<close> is checked: an insert that is ignored because the email is
  taken adds no row and leaves the last insert rowid alone, but the key is used up.
\<close>

definition insertOrIgnoreUser :: "string \<Rightarrow> string \<Rightarrow> World \<Rightarrow> RunResult \<times> World" where
  "insertOrIgnoreUser email slug w =
     (let newId = fold max (map u_id (Users w)) (Users_seq w) + 1
      in if email \<in> set (map u_email (Users w))
         then (let w' = w\<lparr>Users_seq := newId\<rparr> in (runResult w' 0, w'))
         else (let w' = w\<lparr>Users := Users w @ [\<lparr>u_id = newId, u_email = email, u_slug = slug\<rparr>],
                          Users_seq := newId, lastRowid := newId\<rparr>
               in (runResult w' 1, w')))"

text \<open>\<^verbatim>\<open>db.get('SELECT id, slug FROM Users WHERE email = ?')\<close>: the first row, or undefined.\<close>

definition selectUserByEmail :: "string \<Rightarrow> World \<Rightarrow> User option" where
  "selectUserByEmail email w = find (\<lambda>u. u_email u = email) (Users w)"

definition getOrCreateUser ::
  "(nat \<Rightarrow> real) \<Rightarrow> string \<Rightarrow> World \<Rightarrow> (error + User) \<times> World" where
  "getOrCreateUser rnd email w =
     (case createSlug rnd w of
        (Inl e, w1) \<Rightarrow> (Inl e, w1)
      | (Inr slug, w1) \<Rightarrow>
          (let (_, w2) = insertOrIgnoreUser email slug w1
           in case selectUserByEmail email w2 of
                None \<Rightarrow> (Inl (TypeError ''Cannot read properties of undefined''), w2)
              | Some res \<Rightarrow> (Inr \<lparr>u_id = u_id res, u_email = email, u_slug = u_slug res\<rparr>, w2)))"

subsection \<open>Deleting timers and groups\<close>

text \<open>
  \<^verbatim>\<open>DELETE FROM Timers WHERE userid = ? AND slug = ?\<close> and
  \<^verbatim>\<open>DELETE FROM Groups WHERE slug = ?\<close>. No statement of the source switches foreign-key
  enforcement on, so the ON DELETE CASCADE clauses of the schema remove nothing.
\<close>

definition deleteTimer :: "int \<Rightarrow> string \<Rightarrow> World \<Rightarrow> World" where
  "deleteTimer userId slug w =
     w\<lparr>Timers := filter (\<lambda>t. \<not> (t_userid t = userId \<and> t_slug t = slug)) (Timers w)\<rparr>"

definition deleteGroup :: "string \<Rightarrow> World \<Rightarrow> World" where
  "deleteGroup slug w = w\<lparr>Groups := filter (\<lambda>g. \<not> (g_slug g = slug)) (Groups w)\<rparr>"

subsection \<open>Reading timers by slug\<close>

text \<open>
  A positional parameter is bound from the values passed after the SQL text; a placeholder
  with no value left stays NULL (\<open>None\<close>), and \<^verbatim>\<open>column = NULL\<close> holds for no row.
\<close>

definition bindParam :: "string list \<Rightarrow> nat \<Rightarrow> string option" where
  "bindParam params i = (if i < length params then Some (params ! i) else None)"

definition sqlEq :: "string \<Rightarrow> string option \<Rightarrow> bool" where
  "sqlEq col p = (case p of None \<Rightarrow> False | Some v \<Rightarrow> col = v)"

text \<open>
  The three SELECT cores of \<^verbatim>\<open>getTimersBySlug\<close>. The first carries
  \<^verbatim>\<open>ORDER BY tg.createdAt ASC\<close>; the rows it would give in that order are \<open>groupArm\<close>.
\<close>

definition groupArm :: "string option \<Rightarrow> World \<Rightarrow> Timer list" where
  "groupArm p w =
     map snd (sort_key (\<lambda>(tg, t). tg_createdAt tg)
       [(tg, t). g \<leftarrow> Groups w, tg \<leftarrow> TimerGroups w, g_id g = tg_groupid tg,
                 t \<leftarrow> Timers w, tg_timerid tg = t_id t, sqlEq (g_slug g) p])"

definition timerArm :: "string option \<Rightarrow> World \<Rightarrow> Timer list" where
  "timerArm p w = [t. t \<leftarrow> Timers w, sqlEq (t_slug t) p]"

definition userArm :: "string option \<Rightarrow> World \<Rightarrow> Timer list" where
  "userArm p w = [t. u \<leftarrow> Users w, t \<leftarrow> Timers w, t_userid t = u_id u, sqlEq (u_slug u) p]"

text \<open>
  A compound SELECT joined by UNION ALL. Each arm is a SELECT core with a flag that says
  whether an ORDER BY clause follows it before the next UNION ALL; the ORDER BY after the last
  core orders the whole compound and is the argument \<open>orderKey\<close>. SQLite compiles no
  statement with an ORDER BY inside the compound: preparing it fails, and \<^verbatim>\<open>db.all\<close>
  rejects.
\<close>

definition compoundSelect ::
  "(bool \<times> 'r list) list \<Rightarrow> ('r \<Rightarrow> int) option \<Rightarrow> error + 'r list" where
  "compoundSelect arms orderKey =
     (if list_ex fst arms
      then Inl (SqliteError ''ORDER BY clause should come after UNION ALL not before'')
      else Inr (case orderKey of
                  None \<Rightarrow> concat (map snd arms)
                | Some k \<Rightarrow> sort_key k (concat (map snd arms))))"

text \<open>
  \<^verbatim>\<open>getTimersBySlug(slug)\<close>: three placeholders, two values (\<^verbatim>\<open>slug, slug\<close>), an ORDER BY
  after the first core and one after the last.
\<close>

definition getTimersBySlug :: "string \<Rightarrow> World \<Rightarrow> error + Timer list" where
  "getTimersBySlug slug w =
     (let p = bindParam [slug, slug]
      in compoundSelect
           [(True, groupArm (p 0) w), (False, timerArm (p 1) w), (False, userArm (p 2) w)]
           (Some t_createdAt))"

subsection \<open>Reading groups\<close>

text \<open>The rows of the join in \<^verbatim>\<open>getGroups\<close>: the group's columns and the timer's.\<close>

definition groupRows :: "int \<Rightarrow> World \<Rightarrow> (GroupRow \<times> Timer) list" where
  "groupRows userId w =
     [(g, t). g \<leftarrow> Groups w, tg \<leftarrow> TimerGroups w, tg_groupid tg = g_id g,
              t \<leftarrow> Timers w, tg_timerid tg = t_id t, g_userid g = userId]"

text \<open>
  The loop over \<^verbatim>\<open>rows\<close>. The object \<^verbatim>\<open>groups\<close> is an association list from \<^verbatim>\<open>g_id\<close> to
  the group built so far: a key not yet present gets a group without timers, then the row's
  timer is pushed onto the group under the key.
\<close>

definition pushTimer :: "int \<Rightarrow> Timer \<Rightarrow> (int \<times> Group) list \<Rightarrow> (int \<times> Group) list" where
  "pushTimer k t groups =
     map (\<lambda>(k', G). if k' = k then (k', G\<lparr>group_timers := group_timers G @ [t]\<rparr>) else (k', G))
       groups"

fun collectGroups :: "(GroupRow \<times> Timer) list \<Rightarrow> (int \<times> Group) list \<Rightarrow> (int \<times> Group) list" where
  "collectGroups [] groups = groups"
| "collectGroups ((g, t) # rows) groups =
     (let groups1 =
            (if map_of groups (g_id g) = None
             then groups @ [(g_id g, \<lparr>group_id = g_id g, group_title = g_title g,
                                       group_slug = g_slug g, group_createdAt = g_createdAt g,
                                       group_timers = []\<rparr>)]
             else groups)
      in collectGroups rows (pushTimer (g_id g) t groups1))"

text \<open>
  \<^verbatim>\<open>Object.values(groups)\<close> lists integer keys in ascending order; \<^verbatim>\<open>arr.sort\<close> is stable.
\<close>

definition getGroups :: "int \<Rightarrow> World \<Rightarrow> Group list" where
  "getGroups userId w =
     (let groups = collectGroups (groupRows userId w) [];
          arr = map snd (sort_key fst groups)
      in sort_key group_createdAt arr)"

subsection \<open>Example states\<close>

definition emptyWorld :: World where
  "emptyWorld =
     \<lparr>Slugs = [], Users = [], Users_seq = 0, Timers = [], Groups = [], TimerGroups = [],
      lastRowid = 0, randomCalls = 0\<rparr>"

text \<open>A sequence of \<^verbatim>\<open>Math.random\<close> results that repeats after six calls.\<close>

definition repeatingRandom :: "nat \<Rightarrow> real" where
  "repeatingRandom i = [1 / 100, 1 / 5, 2 / 5, 3 / 5, 4 / 5, 99 / 100] ! (i mod 6)"

definition timerA :: Timer where
  "timerA = \<lparr>t_id = 1, t_epoch = 1000000, t_title = ''tea'', t_slug = ''TTTTTA'',
             t_secret = ''s1'', t_userid = 1, t_format = 2, t_createdAt = 1000000\<rparr>"

definition timerB :: Timer where
  "timerB = \<lparr>t_id = 2, t_epoch = 1000050, t_title = ''eggs'', t_slug = ''TTTTTB'',
             t_secret = ''s2'', t_userid = 1, t_format = 2, t_createdAt = 1000050\<rparr>"

text \<open>
  User 1 owns two timers and two groups; the first group holds both timers (\<open>timerB\<close> was
  added first), the second group holds none. User 2 owns nothing.
\<close>

definition groupWorld :: World where
  "groupWorld =
     \<lparr>Slugs = [''UUUUUA'', ''UUUUUB'', ''TTTTTA'', ''TTTTTB'', ''GGGGGA'', ''GGGGGB''],
      Users = [\<lparr>u_id = 1, u_email = ''a@x.org'', u_slug = ''UUUUUA''\<rparr>,
               \<lparr>u_id = 2, u_email = ''b@x.org'', u_slug = ''UUUUUB''\<rparr>],
      Users_seq = 2,
      Timers = [timerA, timerB],
      Groups = [\<lparr>g_id = 1, g_title = ''kitchen'', g_slug = ''GGGGGA'', g_userid = 1,
                 g_createdAt = 1000100\<rparr>,
                \<lparr>g_id = 2, g_title = ''garden'', g_slug = ''GGGGGB'', g_userid = 1,
                 g_createdAt = 1000200\<rparr>],
      TimerGroups = [\<lparr>tg_id = 1, tg_groupid = 1, tg_timerid = 2, tg_userid = 1,
                      tg_createdAt = 1000300\<rparr>,
                     \<lparr>tg_id = 2, tg_groupid = 1, tg_timerid = 1, tg_userid = 1,
                      tg_createdAt = 1000400\<rparr>],
      lastRowid = 2, randomCalls = 0\<rparr>"


section \<open>Properties of the duration bucketizer\<close>

lemma bucketSeconds_append:
  "bucketSeconds (xs @ ys) = bucketSeconds xs + bucketSeconds ys"
  by (simp add: bucketSeconds_def)

lemma bucketSeconds_single:
  "bucketSeconds [\<lparr>name = nm, scale = q\<rparr>] = q * unitSeconds nm"
  by (simp add: bucketSeconds_def)

lemma floor_step_nonneg:
  fixes d :: real and s :: int
  assumes "0 \<le> d" and "0 < s"
  shows "0 \<le> \<lfloor>d / real_of_int s\<rfloor>"
    and "0 \<le> d - real_of_int (\<lfloor>d / real_of_int s\<rfloor> * s)"
proof -
  from assms show "0 \<le> \<lfloor>d / real_of_int s\<rfloor>" by simp
  from assms have "real_of_int \<lfloor>d / real_of_int s\<rfloor> * real_of_int s \<le> d"
    by (intro floor_divide_lower) simp
  then show "0 \<le> d - real_of_int (\<lfloor>d / real_of_int s\<rfloor> * s)" by simp
qed

lemma floor_step_less:
  fixes d :: real and s :: int
  assumes "0 < s"
  shows "d - real_of_int (\<lfloor>d / real_of_int s\<rfloor> * s) < real_of_int s"
proof -
  from assms have "d < (real_of_int \<lfloor>d / real_of_int s\<rfloor> + 1) * real_of_int s"
    by (intro floor_divide_upper) simp
  then show ?thesis by (simp add: algebra_simps)
qed

text \<open>
  One pass of the loop keeps the total: what the buckets hold plus what is left in
  \<^verbatim>\<open>diff\<close>. A unit that is skipped has count 0, because the duration is not negative.
\<close>

lemma bucketLoop_sum:
  assumes "0 \<le> d" and "\<forall>u\<in>set us. 0 < scale u \<and> unitSeconds (name u) = scale u"
  shows "real_of_int (bucketSeconds (snd (bucketLoop us d dfs))) + fst (bucketLoop us d dfs)
           = real_of_int (bucketSeconds dfs) + d
         \<and> 0 \<le> fst (bucketLoop us d dfs)"
  using assms
proof (induction us arbitrary: d dfs)
  case Nil
  then show ?case by simp
next
  case (Cons u us)
  define q where "q = \<lfloor>d / real_of_int (scale u)\<rfloor>"
  define d' where "d' = d - real_of_int (q * scale u)"
  define dfs' where
    "dfs' = (if q > 0 \<or> length dfs > 0 then dfs @ [\<lparr>name = name u, scale = q\<rparr>] else dfs)"
  from Cons.prems have pos: "0 < scale u" and us: "unitSeconds (name u) = scale u"
    by simp_all
  have q0: "0 \<le> q" and d0: "0 \<le> d'"
    using floor_step_nonneg [OF Cons.prems(1) pos] by (simp_all add: q_def d'_def)
  have step: "bucketLoop (u # us) d dfs = bucketLoop us d' dfs'"
    by (simp add: q_def d'_def dfs'_def Let_def)
  have sec: "bucketSeconds dfs' = bucketSeconds dfs + q * scale u"
    using q0 by (auto simp: dfs'_def bucketSeconds_append bucketSeconds_single us)
  from Cons.prems have rest: "\<forall>u\<in>set us. 0 < scale u \<and> unitSeconds (name u) = scale u"
    by simp
  from Cons.IH [OF d0 rest, of dfs'] show ?case
    unfolding step sec by (simp add: d'_def)
qed

lemma bucketLoop_last:
  assumes "us \<noteq> []" and "0 < scale (last us)"
  shows "fst (bucketLoop us d dfs) < real_of_int (scale (last us))"
  using assms
proof (induction us arbitrary: d dfs)
  case Nil
  then show ?case by simp
next
  case (Cons u us)
  show ?case
  proof (cases "us = []")
    case True
    with Cons.prems floor_step_less [of "scale u" d] show ?thesis by (simp add: Let_def)
  next
    case False
    with Cons show ?thesis by (simp add: Let_def)
  qed
qed

lemma units_lookup: "\<forall>u\<in>set units. 0 < scale u \<and> unitSeconds (name u) = scale u"
  by (simp add: units_def unitSeconds_def)

lemma bucketLoop_example:
  "bucketLoop units (200000001 / 2) [] =
     (81 / 2,
      [\<lparr>name = ''Year'', scale = 3\<rparr>, \<lparr>name = ''Week'', scale = 8\<rparr>,
       \<lparr>name = ''Day'', scale = 6\<rparr>, \<lparr>name = ''Hour'', scale = 0\<rparr>,
       \<lparr>name = ''Minute'', scale = 586\<rparr>])"
  by (simp add: units_def)

text \<open>
  Claim C6. For every duration \<open>d \<ge> 0\<close> the buckets of \<open>bucketTimes d\<close>, each count
  multiplied by the scale the table \<open>units\<close> stores for its unit, add up to \<open>d\<close> together
  with the remainder left in \<^verbatim>\<open>diff\<close>, and that remainder lies in \<open>[0, 60)\<close>.
\<close>

theorem bucketTimes_sum:
  assumes "0 \<le> d"
  shows "real_of_int (bucketSeconds (bucketTimes d)) + bucketRemainder d = d
         \<and> 0 \<le> bucketRemainder d \<and> bucketRemainder d < 60"
proof -
  have "fst (bucketLoop units d []) < real_of_int (scale (last units))"
    by (rule bucketLoop_last) (simp_all add: units_def)
  then have "bucketRemainder d < 60"
    by (simp add: bucketRemainder_def units_def)
  moreover from bucketLoop_sum [OF assms units_lookup, of "[]"]
  have "real_of_int (bucketSeconds (bucketTimes d)) + bucketRemainder d = d
        \<and> 0 \<le> bucketRemainder d"
    by (simp add: bucketTimes_def bucketRemainder_def bucketSeconds_def)
  ultimately show ?thesis by simp
qed

theorem bucketTimes_sum_witness:
  "(0::real) \<le> 200000001 / 2
   \<and> bucketTimes (200000001 / 2) =
       [\<lparr>name = ''Year'', scale = 3\<rparr>, \<lparr>name = ''Week'', scale = 8\<rparr>,
        \<lparr>name = ''Day'', scale = 6\<rparr>, \<lparr>name = ''Hour'', scale = 0\<rparr>,
        \<lparr>name = ''Minute'', scale = 586\<rparr>]
   \<and> bucketRemainder (200000001 / 2) = 81 / 2
   \<and> real_of_int (bucketSeconds (bucketTimes (200000001 / 2))) + bucketRemainder (200000001 / 2)
       = 200000001 / 2
   \<and> 0 \<le> bucketRemainder (200000001 / 2) \<and> bucketRemainder (200000001 / 2) < 60"
  using bucketTimes_sum [of "200000001 / 2"]
  by (simp add: bucketTimes_def bucketRemainder_def bucketLoop_example)

text \<open>Once \<^verbatim>\<open>diffs\<close> is not empty, every later unit is pushed, whatever its count.\<close>

lemma bucketLoop_started:
  assumes "dfs \<noteq> []"
  shows "\<exists>tl. snd (bucketLoop us d dfs) = dfs @ tl \<and> map name tl = map name us"
  using assms
proof (induction us arbitrary: d dfs)
  case Nil
  then show ?case by simp
next
  case (Cons u us)
  define q where "q = \<lfloor>d / real_of_int (scale u)\<rfloor>"
  define d' where "d' = d - real_of_int (q * scale u)"
  have step: "bucketLoop (u # us) d dfs = bucketLoop us d' (dfs @ [\<lparr>name = name u, scale = q\<rparr>])"
    using Cons.prems by (simp add: q_def d'_def Let_def)
  from Cons.IH [of "dfs @ [\<lparr>name = name u, scale = q\<rparr>]" d']
  obtain tl where "snd (bucketLoop us d' (dfs @ [\<lparr>name = name u, scale = q\<rparr>]))
                     = (dfs @ [\<lparr>name = name u, scale = q\<rparr>]) @ tl"
              and "map name tl = map name us"
    by auto
  then have "snd (bucketLoop (u # us) d dfs) = dfs @ (\<lparr>name = name u, scale = q\<rparr> # tl)
             \<and> map name (\<lparr>name = name u, scale = q\<rparr> # tl) = map name (u # us)"
    unfolding step by simp
  then show ?case by blast
qed

lemma bucketLoop_skip:
  assumes "0 \<le> d" and "0 < scale u" and "\<lfloor>d / real_of_int (scale u)\<rfloor> = 0"
  shows "bucketLoop (u # us) d [] = bucketLoop us d []"
  using assms by (simp add: Let_def)

lemma bucketLoop_first:
  assumes "0 < \<lfloor>d / real_of_int (scale u)\<rfloor>"
  shows "\<exists>tl. snd (bucketLoop (u # us) d []) = \<lparr>name = name u, scale = \<lfloor>d / real_of_int (scale u)\<rfloor>\<rparr> # tl
           \<and> map name tl = map name us"
proof -
  define q where "q = \<lfloor>d / real_of_int (scale u)\<rfloor>"
  have step: "bucketLoop (u # us) d [] = bucketLoop us (d - real_of_int (q * scale u)) [\<lparr>name = name u, scale = q\<rparr>]"
    using assms by (simp add: q_def Let_def)
  from bucketLoop_started [of "[\<lparr>name = name u, scale = q\<rparr>]" us "d - real_of_int (q * scale u)"]
  show ?thesis unfolding step q_def [symmetric] by simp
qed

text \<open>
  From an empty \<^verbatim>\<open>diffs\<close> the loop either skips every unit, or starts at the first unit
  \<open>k\<close> whose count is not zero and then keeps every later unit.
\<close>

lemma bucketLoop_shape:
  assumes "0 \<le> d" and "\<forall>u\<in>set us. 0 < scale u"
  shows "(snd (bucketLoop us d []) = [] \<and> (\<forall>u\<in>set us. \<lfloor>d / real_of_int (scale u)\<rfloor> = 0))
       \<or> (\<exists>k<length us.
             (\<forall>i<k. \<lfloor>d / real_of_int (scale (us ! i))\<rfloor> = 0)
           \<and> 0 < \<lfloor>d / real_of_int (scale (us ! k))\<rfloor>
           \<and> snd (bucketLoop us d []) \<noteq> []
           \<and> scale (hd (snd (bucketLoop us d []))) = \<lfloor>d / real_of_int (scale (us ! k))\<rfloor>
           \<and> map name (snd (bucketLoop us d [])) = map name (drop k us))"
  using assms
proof (induction us)
  case Nil
  then show ?case by simp
next
  case (Cons u us)
  from Cons.prems have pos: "0 < scale u" and rest: "\<forall>u\<in>set us. 0 < scale u" by simp_all
  have q0: "0 \<le> \<lfloor>d / real_of_int (scale u)\<rfloor>"
    using floor_step_nonneg(1) [OF Cons.prems(1) pos] .
  show ?case
  proof (cases "0 < \<lfloor>d / real_of_int (scale u)\<rfloor>")
    case True
    from bucketLoop_first [OF True, of us]
    obtain tl where "snd (bucketLoop (u # us) d []) = \<lparr>name = name u, scale = \<lfloor>d / real_of_int (scale u)\<rfloor>\<rparr> # tl"
        and "map name tl = map name us" by blast
    with True have "0 < length (u # us) \<and>
             (\<forall>i<0::nat. \<lfloor>d / real_of_int (scale ((u # us) ! i))\<rfloor> = 0)
           \<and> 0 < \<lfloor>d / real_of_int (scale ((u # us) ! 0))\<rfloor>
           \<and> snd (bucketLoop (u # us) d []) \<noteq> []
           \<and> scale (hd (snd (bucketLoop (u # us) d []))) = \<lfloor>d / real_of_int (scale ((u # us) ! 0))\<rfloor>
           \<and> map name (snd (bucketLoop (u # us) d [])) = map name (drop 0 (u # us))"
      by simp
    then show ?thesis by blast
  next
    case False
    with q0 have z: "\<lfloor>d / real_of_int (scale u)\<rfloor> = 0" by linarith
    have step: "bucketLoop (u # us) d [] = bucketLoop us d []"
      by (rule bucketLoop_skip [OF Cons.prems(1) pos z])
    from Cons.IH [OF Cons.prems(1) rest] show ?thesis
    proof
      assume "snd (bucketLoop us d []) = [] \<and> (\<forall>u\<in>set us. \<lfloor>d / real_of_int (scale u)\<rfloor> = 0)"
      with z show ?thesis unfolding step by simp
    next
      assume "\<exists>k<length us.
             (\<forall>i<k. \<lfloor>d / real_of_int (scale (us ! i))\<rfloor> = 0)
           \<and> 0 < \<lfloor>d / real_of_int (scale (us ! k))\<rfloor>
           \<and> snd (bucketLoop us d []) \<noteq> []
           \<and> scale (hd (snd (bucketLoop us d []))) = \<lfloor>d / real_of_int (scale (us ! k))\<rfloor>
           \<and> map name (snd (bucketLoop us d [])) = map name (drop k us)"
      then obtain k where k: "k < length us"
           "\<forall>i<k. \<lfloor>d / real_of_int (scale (us ! i))\<rfloor> = 0"
           "0 < \<lfloor>d / real_of_int (scale (us ! k))\<rfloor>"
           "snd (bucketLoop us d []) \<noteq> []"
           "scale (hd (snd (bucketLoop us d []))) = \<lfloor>d / real_of_int (scale (us ! k))\<rfloor>"
           "map name (snd (bucketLoop us d [])) = map name (drop k us)"
        by blast
      have "\<forall>i<Suc k. \<lfloor>d / real_of_int (scale ((u # us) ! i))\<rfloor> = 0"
        using k(2) z by (auto simp: less_Suc_eq_0_disj)
      with k have "Suc k < length (u # us) \<and>
             (\<forall>i<Suc k. \<lfloor>d / real_of_int (scale ((u # us) ! i))\<rfloor> = 0)
           \<and> 0 < \<lfloor>d / real_of_int (scale ((u # us) ! Suc k))\<rfloor>
           \<and> snd (bucketLoop (u # us) d []) \<noteq> []
           \<and> scale (hd (snd (bucketLoop (u # us) d []))) = \<lfloor>d / real_of_int (scale ((u # us) ! Suc k))\<rfloor>
           \<and> map name (snd (bucketLoop (u # us) d [])) = map name (drop (Suc k) (u # us))"
        unfolding step by simp
      then show ?thesis by blast
    qed
  qed
qed

lemma units_pos: "\<forall>u\<in>set units. 0 < scale u"
  by (simp add: units_def)

lemma all_zero_iff:
  assumes "0 \<le> d"
  shows "(\<forall>u\<in>set units. \<lfloor>d / real_of_int (scale u)\<rfloor> = 0) \<longleftrightarrow> d < 60"
  using assms by (auto simp: units_def floor_eq_iff)

lemma suffix_sorted:
  "k < length units \<Longrightarrow> sorted_wrt (\<ge>) (map unitSeconds (map name (drop k units)))"
proof -
  assume "k < length units"
  then have "k \<in> {0, 1, 2, 3, 4}" by (auto simp: units_def)
  then show ?thesis
    by (auto simp: units_def unitSeconds_def)
qed


lemma bucketTimes_day_hour:
  "bucketTimes 90000 =
     [\<lparr>name = ''Day'', scale = 1\<rparr>, \<lparr>name = ''Hour'', scale = 0\<rparr>,
      \<lparr>name = ''Minute'', scale = 60\<rparr>]"
  by (simp add: bucketTimes_def units_def)

text \<open>
  Claim C7. For every duration \<open>d \<ge> 0\<close>, \<open>bucketTimes d\<close> is empty exactly when
  \<open>d < 60\<close>. Otherwise its unit names are the table's names from some position \<open>k\<close> down
  to Minute, with none left out (so zero counts after the first one are kept), \<open>k\<close> is the
  first unit whose count is not zero, and the units come in the table's order, largest
  scale first.
\<close>

theorem bucketTimes_shape:
  assumes "0 \<le> d"
  shows "(bucketTimes d = [] \<longleftrightarrow> d < 60)
       \<and> (bucketTimes d \<noteq> [] \<longrightarrow>
            (\<exists>k<length units.
                (\<forall>i<k. \<lfloor>d / real_of_int (scale (units ! i))\<rfloor> = 0)
              \<and> 0 < \<lfloor>d / real_of_int (scale (units ! k))\<rfloor>
              \<and> scale (hd (bucketTimes d)) = \<lfloor>d / real_of_int (scale (units ! k))\<rfloor>
              \<and> map name (bucketTimes d) = map name (drop k units))
          \<and> name (last (bucketTimes d)) = ''Minute'')
       \<and> sorted_wrt (\<ge>) (map unitSeconds (map name (bucketTimes d)))"
proof -
  from bucketLoop_shape [OF assms units_pos]
  consider (none) "bucketTimes d = []" "\<forall>u\<in>set units. \<lfloor>d / real_of_int (scale u)\<rfloor> = 0"
    | (some) k where "k < length units"
        "\<forall>i<k. \<lfloor>d / real_of_int (scale (units ! i))\<rfloor> = 0"
        "0 < \<lfloor>d / real_of_int (scale (units ! k))\<rfloor>"
        "bucketTimes d \<noteq> []"
        "scale (hd (bucketTimes d)) = \<lfloor>d / real_of_int (scale (units ! k))\<rfloor>"
        "map name (bucketTimes d) = map name (drop k units)"
    unfolding bucketTimes_def by blast
  then show ?thesis
  proof cases
    case none
    from none(2) all_zero_iff [OF assms] have "d < 60" by blast
    with none(1) show ?thesis by simp
  next
    case some
    have "\<not> (\<forall>u\<in>set units. \<lfloor>d / real_of_int (scale u)\<rfloor> = 0)"
      using some(1,3) by (metis less_irrefl nth_mem)
    with all_zero_iff [OF assms] have ge: "\<not> d < 60" by blast
    have "last (map name (bucketTimes d)) = last (map name (drop k units))"
      by (simp only: some(6))
    also have "\<dots> = name (last units)"
      using some(1) by (simp add: last_map last_drop)
    finally have "name (last (bucketTimes d)) = ''Minute''"
      using some(4) by (simp add: last_map units_def)
    moreover have "sorted_wrt (\<ge>) (map unitSeconds (map name (bucketTimes d)))"
      unfolding some(6) by (rule suffix_sorted [OF some(1)])
    ultimately show ?thesis
      using some ge by blast
  qed
qed

theorem bucketTimes_shape_witness:
  "(0::real) \<le> 90000
   \<and> bucketTimes 90000 =
       [\<lparr>name = ''Day'', scale = 1\<rparr>, \<lparr>name = ''Hour'', scale = 0\<rparr>,
        \<lparr>name = ''Minute'', scale = 60\<rparr>]
   \<and> (\<exists>k<length units.
          (\<forall>i<k. \<lfloor>90000 / real_of_int (scale (units ! i))\<rfloor> = 0)
        \<and> 0 < \<lfloor>90000 / real_of_int (scale (units ! k))\<rfloor>
        \<and> scale (hd (bucketTimes 90000)) = \<lfloor>90000 / real_of_int (scale (units ! k))\<rfloor>
        \<and> map name (bucketTimes 90000) = map name (drop k units))
   \<and> name (last (bucketTimes 90000)) = ''Minute''
   \<and> sorted_wrt (\<ge>) (map unitSeconds (map name (bucketTimes 90000)))"
proof -
  have nonempty: "bucketTimes 90000 \<noteq> []"
    by (simp add: bucketTimes_day_hour)
  have nonneg: "(0::real) \<le> 90000"
    by simp
  from bucketTimes_shape [OF nonneg] nonempty bucketTimes_day_hour nonneg show ?thesis
    by blast
qed

lemma showInt_61: "showInt 61 = ''61''"
  by (simp add: showInt_def showNat.simps digitChar_def)

lemma showInt_0: "showInt 0 = ''0''"
  by (simp add: showInt_def showNat.simps digitChar_def)

lemma bucketTimes_3661: "bucketTimes 3661 = [\<lparr>name = ''Minute'', scale = 61\<rparr>]"
  by (simp add: bucketTimes_def units_def)

text \<open>
  Claim C2. The table stores \<open>24 * 3600\<close> seconds under Hour, the same scale as Day, so the
  Hour count is 0 for every duration the loop reaches it with. With \<open>epoch = now - 3661\<close>
  the strategy at index 2 renders \<open>61 Minutes\<close>, not \<open>1 Hour, 1 Minute\<close>.
\<close>

theorem twoUnits_hour_scale:
  "unitSeconds ''Hour'' = 24 * 3600
   \<and> bucketTimes 3661 = [\<lparr>name = ''Minute'', scale = 61\<rparr>]
   \<and> formatTime 1003661000 1000000 (Some 2) = Inr ''61 Minutes''"
  by (simp add: unitSeconds_def units_def formatTime_def formatterAt_def formatters_def
      twoUnits_def bucketTimes_3661 scaleToStr_def showInt_61)

section \<open>Properties of the format strategies\<close>

lemma makeScaleFormatter_year:
  "makeScaleFormatter nm e n =
     Inr (scaleToStr \<lparr>name = nm, scale = \<lfloor>(n - real_of_int e) / 31536000\<rfloor>\<rparr>)"
  by (simp add: makeScaleFormatter_def units_def)

text \<open>
  Claim C3. Every single-scale closure divides by the scale stored under Year, whatever unit
  it is made for. With \<open>epoch = now - 3661\<close> the strategies named Hours (index 6) and
  Minutes (index 7) render \<open>0 Hours\<close> and \<open>0 Minutes\<close>, although the scale the table
  stores under Minute gives the count 61; index 5 is the strategy named Days.
\<close>

theorem singleScale_divides_by_year:
  "map fst (drop 3 formatters) = [''Years'', ''Weeks'', ''Days'', ''Hours'', ''Minutes'']
   \<and> formatTime 1003661000 1000000 (Some 5) = Inr ''0 Days''
   \<and> formatTime 1003661000 1000000 (Some 6) = Inr ''0 Hours''
   \<and> formatTime 1003661000 1000000 (Some 7) = Inr ''0 Minutes''
   \<and> \<lfloor>(3661 :: real) / real_of_int (unitSeconds ''Minute'')\<rfloor> = 61"
  by (simp add: formatTime_def formatterAt_def formatters_def makeScaleFormatter_year
      scaleToStr_def showInt_0 unitSeconds_def units_def)

text \<open>
  Claim C9. For every clock reading and epoch, a format value that is missing, negative or
  past the end of the registry makes \<open>formatTime\<close> render with the entry at index 1,
  One Unit, and the call returns a string.
\<close>

theorem formatTime_fallback:
  assumes "format = None \<or> (\<exists>i. format = Some i \<and> (i < 0 \<or> int (length formatters) \<le> i))"
  shows "formatters ! 1 = (''One Unit'', oneUnit)
       \<and> formatTime nowMs epoch format = oneUnit epoch (real_of_int nowMs / 1000)
       \<and> (\<exists>s. formatTime nowMs epoch format = Inr s)"
proof -
  from assms have "formatterAt format = None"
    by (auto simp: formatterAt_def)
  then have "formatTime nowMs epoch format = oneUnit epoch (real_of_int nowMs / 1000)"
    by (simp add: formatTime_def formatters_def)
  moreover have "\<exists>s. oneUnit epoch (real_of_int nowMs / 1000) = Inr s"
    by (simp add: oneUnit_def split: list.split)
  moreover have "formatters ! 1 = (''One Unit'', oneUnit)"
    by (simp add: formatters_def)
  ultimately show ?thesis by simp
qed

theorem formatTime_fallback_witness:
  "(\<exists>i. Some (9::int) = Some i \<and> (i < 0 \<or> int (length formatters) \<le> i))
   \<and> formatTime 1003661000 1000000 (Some 9) = oneUnit 1000000 (real_of_int 1003661000 / 1000)
   \<and> formatTime 1003661000 1000000 (Some 9) = Inr ''61 Minutes''
   \<and> formatTime 1003661000 1000000 (Some (- 1)) = Inr ''61 Minutes''
   \<and> formatTime 1003661000 1000000 None = Inr ''61 Minutes''"
proof -
  have r: "oneUnit 1000000 (real_of_int 1003661000 / 1000) = Inr ''61 Minutes''"
    by (simp add: oneUnit_def bucketTimes_3661 scaleToStr_def showInt_61)
  have h9: "\<exists>i. Some (9::int) = Some i \<and> (i < 0 \<or> int (length formatters) \<le> i)"
    by (simp add: formatters_def)
  have hm: "\<exists>i. Some (- 1::int) = Some i \<and> (i < 0 \<or> int (length formatters) \<le> i)"
    by simp
  from formatTime_fallback [of "Some 9" 1003661000 1000000]
       formatTime_fallback [of "Some (- 1)" 1003661000 1000000]
       formatTime_fallback [of None 1003661000 1000000] h9 hm r
  show ?thesis by simp
qed

section \<open>Properties of the slug allocator\<close>

text \<open>
  The test \<^verbatim>\<open>result.lastID !== undefined\<close> holds after every insert, ignored or not, so
  the first attempt of the first length returns: \<open>createSlug\<close> yields its first six-character
  draw and never reaches a second attempt, a longer length or the \<^verbatim>\<open>throw\<close>.
\<close>

lemma attemptLoop_first:
  "attemptLoop rnd len 0 w =
     (Some (drawChars rnd (randomCalls w) len),
      snd (insertOrIgnoreSlug (drawChars rnd (randomCalls w) len)
             (w\<lparr>randomCalls := randomCalls w + len\<rparr>)))"
  by (simp add: attemptLoop.simps [of rnd len 0 w] insertOrIgnoreSlug_def runResult_def Let_def)

lemma createSlug_first_draw:
  "createSlug rnd w =
     (Inr (drawChars rnd (randomCalls w) 6),
      snd (insertOrIgnoreSlug (drawChars rnd (randomCalls w) 6)
             (w\<lparr>randomCalls := randomCalls w + 6\<rparr>)))"
  by (simp add: createSlug_def lengthLoop.simps [of rnd 6 w] attemptLoop_first)

lemma createSlug_Users: "Users (snd (createSlug rnd w)) = Users w"
  by (simp add: createSlug_first_draw insertOrIgnoreSlug_def Let_def)


lemma slugCharAt_values:
  "slugCharAt (1 / 100) = ''A''" "slugCharAt (1 / 5) = ''M''" "slugCharAt (2 / 5) = ''Y''"
  "slugCharAt (3 / 5) = ''k''" "slugCharAt (4 / 5) = ''w''" "slugCharAt (99 / 100) = ''9''"
  by (simp_all add: slugCharAt_def slugChars_def)

lemma repeatingRandom_values:
  "repeatingRandom 0 = 1 / 100" "repeatingRandom 1 = 1 / 5" "repeatingRandom 2 = 2 / 5"
  "repeatingRandom 3 = 3 / 5" "repeatingRandom 4 = 4 / 5" "repeatingRandom 5 = 99 / 100"
  "repeatingRandom 6 = 1 / 100" "repeatingRandom 7 = 1 / 5" "repeatingRandom 8 = 2 / 5"
  "repeatingRandom 9 = 3 / 5" "repeatingRandom 10 = 4 / 5" "repeatingRandom 11 = 99 / 100"
  "repeatingRandom (Suc 0) = 1 / 5" "repeatingRandom (Suc (Suc 0)) = 2 / 5"
  by (simp_all add: repeatingRandom_def)

lemma drawChars_6:
  "drawChars rnd pos 6 =
     slugCharAt (rnd pos) @ slugCharAt (rnd (pos + 1)) @ slugCharAt (rnd (pos + 2)) @
     slugCharAt (rnd (pos + 3)) @ slugCharAt (rnd (pos + 4)) @ slugCharAt (rnd (pos + 5))"
  by (simp add: eval_nat_numeral)

lemma drawChars_repeating_0: "drawChars repeatingRandom 0 6 = ''AMYkw9''"
  by (simp add: drawChars_6 repeatingRandom_values slugCharAt_values)

lemma drawChars_repeating_6: "drawChars repeatingRandom 6 6 = ''AMYkw9''"
  by (simp add: drawChars_6 repeatingRandom_values slugCharAt_values)


text \<open>
  Claim C5. Two calls in a row, with nothing else touching the store, whose draws from
  \<^verbatim>\<open>Math.random\<close> repeat: both return the slug \<open>AMYkw9\<close>, and the registry holds it
  once. The slugs returned are not pairwise distinct.
\<close>

theorem createSlug_repeats:
  "fst (createSlug repeatingRandom emptyWorld) = Inr ''AMYkw9''
   \<and> fst (createSlug repeatingRandom (snd (createSlug repeatingRandom emptyWorld))) = Inr ''AMYkw9''
   \<and> Slugs (snd (createSlug repeatingRandom (snd (createSlug repeatingRandom emptyWorld))))
       = [''AMYkw9'']"
  by (simp add: createSlug_first_draw emptyWorld_def insertOrIgnoreSlug_def Let_def
      drawChars_repeating_0 drawChars_repeating_6)

subsection \<open>Users\<close>

lemma find_unique_filter:
  assumes "distinct (map f xs)" and "find (\<lambda>x. f x = k) xs = Some r"
  shows "filter (\<lambda>x. f x = k) xs = [r]"
  using assms
proof (induction xs)
  case Nil
  then show ?case by simp
next
  case (Cons x xs)
  show ?case
  proof (cases "f x = k")
    case True
    with Cons.prems have "r = x" and "\<forall>y\<in>set xs. f y \<noteq> k"
      by (auto simp: image_iff)
    with True show ?thesis by (simp add: filter_empty_conv)
  next
    case False
    with Cons show ?thesis by simp
  qed
qed

lemma find_snoc:
  "find P (xs @ [y]) = (case find P xs of None \<Rightarrow> (if P y then Some y else None) | Some x \<Rightarrow> Some x)"
  by (induction xs) simp_all

lemma user_eta: "\<lparr>u_id = u_id u, u_email = u_email u, u_slug = u_slug u\<rparr> = (u :: User)"
  by (cases u) simp

text \<open>A call for an email that has a row returns that row and writes nothing to Users.\<close>

lemma getOrCreateUser_existing:
  assumes "find (\<lambda>x. u_email x = email) (Users w) = Some u"
  shows "fst (getOrCreateUser rnd email w) = Inr u
         \<and> Users (snd (getOrCreateUser rnd email w)) = Users w"
proof -
  define w1 where "w1 = snd (createSlug rnd w)"
  have cs: "createSlug rnd w = (Inr (drawChars rnd (randomCalls w) 6), w1)"
    by (simp add: w1_def createSlug_first_draw)
  have users: "Users w1 = Users w"
    by (simp add: w1_def createSlug_Users)
  from assms have mem: "email \<in> set (map u_email (Users w1))" and em: "u_email u = email"
    by (auto simp: users find_Some_iff)
  define w2 where "w2 = snd (insertOrIgnoreUser email (drawChars rnd (randomCalls w) 6) w1)"
  have users2: "Users w2 = Users w"
    using mem by (simp add: w2_def insertOrIgnoreUser_def Let_def users)
  have sel: "selectUserByEmail email w2 = Some u"
    by (simp add: selectUserByEmail_def users2 assms)
  have "getOrCreateUser rnd email w = (Inr \<lparr>u_id = u_id u, u_email = email, u_slug = u_slug u\<rparr>, w2)"
    using sel by (simp add: getOrCreateUser_def cs w2_def split_beta)
  then show ?thesis
    using em user_eta [of u] users2 by simp
qed

text \<open>After any call the email has a row, the first one found is returned, and emails stay unique.\<close>

lemma getOrCreateUser_first:
  assumes "distinct (map u_email (Users w))"
  shows "\<exists>u. fst (getOrCreateUser rnd email w) = Inr u
           \<and> find (\<lambda>x. u_email x = email) (Users (snd (getOrCreateUser rnd email w))) = Some u
           \<and> distinct (map u_email (Users (snd (getOrCreateUser rnd email w))))"
proof (cases "find (\<lambda>x. u_email x = email) (Users w)")
  case (Some u)
  from getOrCreateUser_existing [OF Some, of rnd] assms Some show ?thesis
    by simp
next
  case None
  define w1 where "w1 = snd (createSlug rnd w)"
  define slug where "slug = drawChars rnd (randomCalls w) 6"
  define new where
    "new = \<lparr>u_id = fold max (map u_id (Users w1)) (Users_seq w1) + 1, u_email = email, u_slug = slug\<rparr>"
  define w2 where "w2 = w1\<lparr>Users := Users w1 @ [new], Users_seq := u_id new, lastRowid := u_id new\<rparr>"
  have cs: "createSlug rnd w = (Inr slug, w1)"
    by (simp add: w1_def slug_def createSlug_first_draw)
  have users: "Users w1 = Users w"
    by (simp add: w1_def createSlug_Users)
  from None have absent: "email \<notin> set (map u_email (Users w1))"
    by (auto simp: users find_None_iff)
  have ins: "insertOrIgnoreUser email slug w1 = (runResult w2 1, w2)"
    using absent by (simp add: insertOrIgnoreUser_def Let_def w2_def new_def)
  have fnd: "find (\<lambda>x. u_email x = email) (Users w2) = Some new"
    using None by (simp add: w2_def users find_snoc new_def)
  have "getOrCreateUser rnd email w = (Inr \<lparr>u_id = u_id new, u_email = email, u_slug = u_slug new\<rparr>, w2)"
    by (simp add: getOrCreateUser_def cs ins selectUserByEmail_def fnd)
  then have res: "getOrCreateUser rnd email w = (Inr new, w2)"
    by (simp add: new_def)
  have "distinct (map u_email (Users w2))"
    using assms absent by (simp add: w2_def users new_def)
  with res fnd show ?thesis by simp
qed

text \<open>
  Claim C8. In a store whose Users rows have distinct emails (the UNIQUE constraint), two
  calls of \<open>getOrCreateUser\<close> with the same email return the same record (id, email and
  slug), the second call leaves the Users table as the first left it, and the table then
  holds exactly one row for the email, the record returned.
\<close>

theorem getOrCreateUser_idempotent:
  assumes "distinct (map u_email (Users w))"
  shows "\<exists>u w1 w2.
           getOrCreateUser rnd email w = (Inr u, w1)
         \<and> getOrCreateUser rnd email w1 = (Inr u, w2)
         \<and> Users w2 = Users w1
         \<and> filter (\<lambda>x. u_email x = email) (Users w2) = [u]"
proof -
  define w1 where "w1 = snd (getOrCreateUser rnd email w)"
  from getOrCreateUser_first [OF assms, of rnd email]
  obtain u where first: "fst (getOrCreateUser rnd email w) = Inr u"
    and fnd: "find (\<lambda>x. u_email x = email) (Users w1) = Some u"
    and dist: "distinct (map u_email (Users w1))"
    unfolding w1_def by blast
  define w2 where "w2 = snd (getOrCreateUser rnd email w1)"
  from getOrCreateUser_existing [OF fnd, of rnd]
  have second: "fst (getOrCreateUser rnd email w1) = Inr u" and same: "Users w2 = Users w1"
    by (simp_all add: w2_def)
  have one: "filter (\<lambda>x. u_email x = email) (Users w2) = [u]"
    unfolding same by (rule find_unique_filter [OF dist fnd])
  have "getOrCreateUser rnd email w = (Inr u, w1)"
    using first by (simp add: w1_def prod_eq_iff)
  moreover have "getOrCreateUser rnd email w1 = (Inr u, w2)"
    using second by (simp add: w2_def prod_eq_iff)
  ultimately show ?thesis
    using same one by blast
qed

lemma getOrCreateUser_example:
  "fst (getOrCreateUser repeatingRandom ''c@x.org'' groupWorld)
     = Inr \<lparr>u_id = 3, u_email = ''c@x.org'', u_slug = ''AMYkw9''\<rparr>"
  by (simp add: getOrCreateUser_def createSlug_first_draw insertOrIgnoreSlug_def
      insertOrIgnoreUser_def selectUserByEmail_def groupWorld_def drawChars_repeating_0 Let_def)

theorem getOrCreateUser_idempotent_witness:
  "distinct (map u_email (Users groupWorld))
   \<and> fst (getOrCreateUser repeatingRandom ''c@x.org'' groupWorld)
       = Inr \<lparr>u_id = 3, u_email = ''c@x.org'', u_slug = ''AMYkw9''\<rparr>
   \<and> (\<exists>u w1 w2.
           getOrCreateUser repeatingRandom ''c@x.org'' groupWorld = (Inr u, w1)
         \<and> getOrCreateUser repeatingRandom ''c@x.org'' w1 = (Inr u, w2)
         \<and> Users w2 = Users w1
         \<and> filter (\<lambda>x. u_email x = ''c@x.org'') (Users w2) = [u])"
proof -
  have d: "distinct (map u_email (Users groupWorld))"
    by (simp add: groupWorld_def)
  from getOrCreateUser_idempotent [OF d, of repeatingRandom "''c@x.org''"] d
    getOrCreateUser_example
  show ?thesis by blast
qed

section \<open>Properties of the delete operations\<close>

lemma deleteTimer_not_owner:
  assumes "\<forall>t\<in>set (Timers w). t_slug t = slug \<longrightarrow> t_userid t \<noteq> userId"
  shows "deleteTimer userId slug w = w"
proof -
  from assms have "filter (\<lambda>t. \<not> (t_userid t = userId \<and> t_slug t = slug)) (Timers w) = Timers w"
    by (auto simp: filter_id_conv)
  then show ?thesis by (simp add: deleteTimer_def)
qed

lemma deleteTimer_example: "deleteTimer 2 ''TTTTTA'' groupWorld = groupWorld"
  by (rule deleteTimer_not_owner) (simp add: groupWorld_def timerA_def timerB_def)

text \<open>
  Claim C4. \<open>deleteTimer\<close> filters by owner and slug (\<open>deleteTimer_not_owner\<close>: a call by
  another user changes nothing). \<open>deleteGroup\<close> takes the slug alone: the group \<open>GGGGGA\<close>
  belongs to user 1, and a call with its slug removes the row, whoever makes the call.
\<close>

theorem deleteGroup_by_slug_only:
  "map g_userid (filter (\<lambda>g. g_slug g = ''GGGGGA'') (Groups groupWorld)) = [1]
   \<and> map g_slug (Groups groupWorld) = [''GGGGGA'', ''GGGGGB'']
   \<and> map g_slug (Groups (deleteGroup ''GGGGGA'' groupWorld)) = [''GGGGGB'']"
  by (simp add: deleteGroup_def groupWorld_def)

section \<open>Properties of the reads\<close>

lemma getTimersBySlug_rejects_all:
  "getTimersBySlug slug w =
     Inl (SqliteError ''ORDER BY clause should come after UNION ALL not before'')"
  by (simp add: getTimersBySlug_def compoundSelect_def)

lemma groupArm_example: "groupArm (Some ''GGGGGA'') groupWorld = [timerB, timerA]"
  by (simp add: groupArm_def groupWorld_def sqlEq_def timerA_def timerB_def)

text \<open>
  Claim C1. For the group \<open>GGGGGA\<close>, which holds two timers, the first SELECT core would
  give the two timers in the order of their membership rows, but the statement as a whole is
  rejected, so \<open>getTimersBySlug\<close> returns no timers and fails.
\<close>

theorem getTimersBySlug_group_of_two:
  "groupArm (Some ''GGGGGA'') groupWorld = [timerB, timerA]
   \<and> getTimersBySlug ''GGGGGA'' groupWorld =
       Inl (SqliteError ''ORDER BY clause should come after UNION ALL not before'')
   \<and> getTimersBySlug ''GGGGGA'' groupWorld \<noteq> Inr [timerB, timerA]"
  by (simp add: groupArm_example getTimersBySlug_def compoundSelect_def)

lemma groupRows_sound:
  assumes "(g, t) \<in> set (groupRows userId w)"
  shows "g \<in> set (Groups w) \<and> g_userid g = userId
         \<and> (\<exists>tg\<in>set (TimerGroups w). tg_groupid tg = g_id g)"
  using assms by (auto simp: groupRows_def split: if_splits)

lemma pushTimer_entries:
  assumes "(k', G') \<in> set (pushTimer k t gs)"
  shows "\<exists>G. (k', G) \<in> set gs \<and> group_id G' = group_id G
             \<and> (group_timers G' = group_timers G \<and> k' \<noteq> k \<or> group_timers G' \<noteq> [] \<and> k' = k)"
  using assms by (auto simp: pushTimer_def split: if_splits)

lemma collectGroups_inv:
  assumes "\<forall>(k, G)\<in>set gs. group_id G = k \<and> group_timers G \<noteq> [] \<and> k \<in> K"
    and "\<forall>(g, t)\<in>set rows. g_id g \<in> K"
  shows "\<forall>(k, G)\<in>set (collectGroups rows gs). group_id G = k \<and> group_timers G \<noteq> [] \<and> k \<in> K"
  using assms
proof (induction rows arbitrary: gs)
  case Nil
  then show ?case by simp
next
  case (Cons row rows)
  obtain g t where row: "row = (g, t)" by (cases row)
  define gs1 where
    "gs1 = (if map_of gs (g_id g) = None
            then gs @ [(g_id g, \<lparr>group_id = g_id g, group_title = g_title g,
                                  group_slug = g_slug g, group_createdAt = g_createdAt g,
                                  group_timers = []\<rparr>)]
            else gs)"
  have step: "collectGroups (row # rows) gs = collectGroups rows (pushTimer (g_id g) t gs1)"
    by (simp add: row gs1_def Let_def)
  from Cons.prems(2) have gK: "g_id g \<in> K" and rest: "\<forall>(g, t)\<in>set rows. g_id g \<in> K"
    by (simp_all add: row)
  have gs1: "\<forall>(k, G)\<in>set gs1. group_id G = k \<and> k \<in> K \<and> (group_timers G \<noteq> [] \<or> k = g_id g)"
    using Cons.prems(1) gK by (auto simp: gs1_def)
  have "\<forall>(k, G)\<in>set (pushTimer (g_id g) t gs1). group_id G = k \<and> group_timers G \<noteq> [] \<and> k \<in> K"
  proof (clarify)
    fix k' G' assume "(k', G') \<in> set (pushTimer (g_id g) t gs1)"
    from pushTimer_entries [OF this] obtain G where
      "(k', G) \<in> set gs1" "group_id G' = group_id G"
      "group_timers G' = group_timers G \<and> k' \<noteq> g_id g \<or> group_timers G' \<noteq> [] \<and> k' = g_id g"
      by blast
    with gs1 show "group_id G' = k' \<and> group_timers G' \<noteq> [] \<and> k' \<in> K"
      by fastforce
  qed
  from Cons.IH [OF this rest] show ?case
    unfolding step .
qed

lemma getGroups_set:
  "set (getGroups userId w) = snd ` set (collectGroups (groupRows userId w) [])"
  by (simp add: getGroups_def Let_def)

lemma getGroups_entries:
  assumes "G \<in> set (getGroups userId w)"
  shows "group_timers G \<noteq> [] \<and> group_id G \<in> g_id ` fst ` set (groupRows userId w)"
proof -
  from assms obtain k where "(k, G) \<in> set (collectGroups (groupRows userId w) [])"
    by (auto simp: getGroups_set)
  moreover have "\<forall>(k, G)\<in>set (collectGroups (groupRows userId w) []).
      group_id G = k \<and> group_timers G \<noteq> [] \<and> k \<in> g_id ` fst ` set (groupRows userId w)"
    by (rule collectGroups_inv) force+
  ultimately show ?thesis by auto
qed

text \<open>
  Claim C10. Every group \<open>getGroups\<close> returns has at least one timer and at least one
  membership row, and is a group of the user; a group id that no membership row refers to
  is the id of no returned group, also when the user owns that group.
\<close>

theorem getGroups_only_with_members:
  "(G \<in> set (getGroups userId w) \<longrightarrow>
      group_timers G \<noteq> []
      \<and> (\<exists>tg\<in>set (TimerGroups w). tg_groupid tg = group_id G)
      \<and> (\<exists>g\<in>set (Groups w). g_id g = group_id G \<and> g_userid g = userId))
   \<and> ((\<forall>tg\<in>set (TimerGroups w). tg_groupid tg \<noteq> k) \<longrightarrow>
        k \<notin> group_id ` set (getGroups userId w))"
proof -
  have a: "group_timers G \<noteq> []
      \<and> (\<exists>tg\<in>set (TimerGroups w). tg_groupid tg = group_id G)
      \<and> (\<exists>g\<in>set (Groups w). g_id g = group_id G \<and> g_userid g = userId)"
    if "G \<in> set (getGroups userId w)" for G
  proof -
    from getGroups_entries [OF that] obtain g t where
      "group_timers G \<noteq> []" "(g, t) \<in> set (groupRows userId w)" "group_id G = g_id g"
      by auto
    with groupRows_sound [of g t userId w] show ?thesis by auto
  qed
  then have "k \<notin> group_id ` set (getGroups userId w)"
    if "\<forall>tg\<in>set (TimerGroups w). tg_groupid tg \<noteq> k"
    using that by fastforce
  with a show ?thesis by blast
qed

lemma getGroups_example:
  "getGroups 1 groupWorld =
     [\<lparr>group_id = 1, group_title = ''kitchen'', group_slug = ''GGGGGA'',
       group_createdAt = 1000100, group_timers = [timerB, timerA]\<rparr>]"
  by (simp add: getGroups_def groupRows_def groupWorld_def pushTimer_def timerA_def timerB_def)

theorem getGroups_only_with_members_witness:
  "getGroups 1 groupWorld =
     [\<lparr>group_id = 1, group_title = ''kitchen'', group_slug = ''GGGGGA'',
       group_createdAt = 1000100, group_timers = [timerB, timerA]\<rparr>]
   \<and> (\<exists>tg\<in>set (TimerGroups groupWorld). tg_groupid tg = 1)
   \<and> (\<exists>g\<in>set (Groups groupWorld). g_id g = 2 \<and> g_userid g = 1)
   \<and> 2 \<notin> tg_groupid ` set (TimerGroups groupWorld)
   \<and> 2 \<notin> group_id ` set (getGroups 1 groupWorld)"
proof -
  have none: "\<forall>tg\<in>set (TimerGroups groupWorld). tg_groupid tg \<noteq> 2"
    by (simp add: groupWorld_def)
  have owned: "\<exists>g\<in>set (Groups groupWorld). g_id g = 2 \<and> g_userid g = 1"
    by (simp add: groupWorld_def)
  define G where "G = \<lparr>group_id = 1, group_title = ''kitchen'', group_slug = ''GGGGGA'',
       group_createdAt = 1000100, group_timers = [timerB, timerA]\<rparr>"
  have mem: "G \<in> set (getGroups 1 groupWorld)"
    by (simp add: getGroups_example G_def)
  from getGroups_only_with_members [of G 1 groupWorld 2] mem none
  have "(\<exists>tg\<in>set (TimerGroups groupWorld). tg_groupid tg = group_id G)
        \<and> 2 \<notin> group_id ` set (getGroups 1 groupWorld)"
    by blast
  moreover have "2 \<notin> tg_groupid ` set (TimerGroups groupWorld)"
    by (simp add: groupWorld_def)
  ultimately show ?thesis
    using owned getGroups_example by (simp add: G_def)
qed

end
